theory Spec2Isabelle
  imports Complex_Main "HOL-Library.Multiset" "HOL-Library.Signed_Division"
begin

section \<open>Positions, boxes and rasters\<close>

text \<open>
  A \<open>Position<N>\<close> is a tuple of \<open>N\<close> coordinates of type \<open>Index\<close>; it is a list of
  integers whose length is the dimension. \<open>Index\<close> is a signed machine integer whose
  overflow is undefined behaviour in C++; coordinates are mathematical integers here, so
  every statement below is about runs without overflow.
\<close>

type_synonym position = "int list"

definition pos_add :: "position \<Rightarrow> position \<Rightarrow> position" where
  "pos_add p v = map2 (+) p v"

definition pos_sub :: "position \<Rightarrow> position \<Rightarrow> position" where
  "pos_sub p v = map2 (-) p v"

text \<open>
  Modelled from the spec: \<open>Raster<T, N>\<close> (Linx/Data/Raster.h is not among the sources).
  The spec has a raster answer a position-indexed read on its domain; a read outside the
  positions it answers is undefined behaviour. A raster is the partial map from the
  positions it answers to their values, so an undefined read is \<open>None\<close>. The same type
  stands for a raster wrapped in an extrapolation policy, which answers more positions.
\<close>

type_synonym 'a raster = "position \<rightharpoonup> 'a"

text \<open>
  Modelled from the spec: \<open>Box<N>\<close> (Linx/Data/Box.h is not among the sources): the pair
  (front, back), both inclusive, with \<open>shape(i) = back[i] - front[i] + 1\<close>; translation
  shifts front and back; \<open>&=\<close> clamps the box inside another box.
\<close>

record box =
  m_front :: position
  m_back :: position

definition Box_contains :: "box \<Rightarrow> position \<Rightarrow> bool" where
  "Box_contains b p = (list_all2 (\<le>) (m_front b) p \<and> list_all2 (\<le>) p (m_back b))"

definition Box_shape :: "box \<Rightarrow> position" where
  "Box_shape b = map2 (\<lambda>bk f. bk - f + 1) (m_back b) (m_front b)"

definition Box_add_assign :: "box \<Rightarrow> position \<Rightarrow> box" where
  "Box_add_assign b v = \<lparr>m_front = pos_add (m_front b) v, m_back = pos_add (m_back b) v\<rparr>"

definition Box_sub_assign :: "box \<Rightarrow> position \<Rightarrow> box" where
  "Box_sub_assign b v = \<lparr>m_front = pos_sub (m_front b) v, m_back = pos_sub (m_back b) v\<rparr>"

definition Box_and_assign :: "box \<Rightarrow> box \<Rightarrow> box" where
  "Box_and_assign b c =
     \<lparr>m_front = map2 max (m_front b) (m_front c), m_back = map2 min (m_back b) (m_back c)\<rparr>"

text \<open>The positions of a raster of a given shape: \<open>0 \<le> q[i] < shape[i]\<close> on every axis.\<close>

definition in_shape :: "position \<Rightarrow> position \<Rightarrow> bool" where
  "in_shape shape q = list_all2 (\<lambda>x s. 0 \<le> x \<and> x < s) q shape"

text \<open>\<open>Raster(shape)\<close> followed by \<open>fill(v)\<close>: every position of the shape holds \<open>v\<close>.\<close>

definition Raster_fill :: "position \<Rightarrow> 'a \<Rightarrow> 'a raster" where
  "Raster_fill shape v = (\<lambda>q. if in_shape shape q then Some v else None)"

text \<open>
  Modelled from the spec: \<open>Patch\<close> (Linx/Data/Patch.h is not among the sources): a view
  of a parent raster restricted to a region, sharing the parent's storage. \<open>copy()\<close>
  makes a raster of the region's shape whose cell \<open>q\<close> holds the parent's value at
  \<open>region.front() + q\<close> (the retained sub-array).
\<close>

record ('a, 'r) patch =
  parent :: "'a raster"
  region :: 'r

definition Raster_patch :: "'a raster \<Rightarrow> 'r \<Rightarrow> ('a, 'r) patch" where
  "Raster_patch r reg = \<lparr>parent = r, region = reg\<rparr>"

definition Patch_copy :: "('a, box) patch \<Rightarrow> 'a raster" where
  "Patch_copy p =
     (\<lambda>q. if in_shape (Box_shape (region p)) q
          then parent p (pos_add q (m_front (region p))) else None)"

section \<open>Mask (Linx/Data/Mask.h)\<close>

record mask =
  m_box :: box
  m_flags :: "bool raster"

text \<open>\<open>Mask(Box<N> box, bool flag)\<close>: flags of the box's shape, filled with the flag.\<close>

definition Mask :: "box \<Rightarrow> bool \<Rightarrow> mask" where
  "Mask b flag = \<lparr>m_box = b, m_flags = Raster_fill (Box_shape b) flag\<rparr>"

text \<open>
  \<open>operator[] const\<close>: \<open>m_box.contains(position) && m_flags[position - m_box.front()]\<close>.
  The flag is read only inside the box; \<open>None\<close> is a read the flags raster does not answer.
\<close>

definition Mask_at :: "mask \<Rightarrow> position \<Rightarrow> bool option" where
  "Mask_at m p =
     (if Box_contains (m_box m) p then m_flags m (pos_sub p (m_front (m_box m)))
      else Some False)"

text \<open>\<open>operator==\<close>: equal boxes and equal flags.\<close>

definition Mask_eq :: "mask \<Rightarrow> mask \<Rightarrow> bool" where
  "Mask_eq m other = (m_box m = m_box other \<and> m_flags m = m_flags other)"

text \<open>
  \<open>operator&=\<close>: remember the old front, clamp the box, take the patch of the flags
  over the clamped box moved to flag coordinates, and replace the flags by its copy.
\<close>

definition Mask_and_assign :: "mask \<Rightarrow> box \<Rightarrow> mask" where
  "Mask_and_assign m bx =
     (let fr = m_front (m_box m);
          m1 = m\<lparr>m_box := Box_and_assign (m_box m) bx\<rparr>;
          p = Raster_patch (m_flags m1) (Box_sub_assign (m_box m1) fr)
      in m1\<lparr>m_flags := Patch_copy p\<rparr>)"

text \<open>\<open>operator+=\<close> and \<open>operator-=\<close> on a \<open>Position<N>\<close>: only the box moves.\<close>

definition Mask_add_assign :: "mask \<Rightarrow> position \<Rightarrow> mask" where
  "Mask_add_assign m v = m\<lparr>m_box := Box_add_assign (m_box m) v\<rparr>"

definition Mask_sub_assign :: "mask \<Rightarrow> position \<Rightarrow> mask" where
  "Mask_sub_assign m v = m\<lparr>m_box := Box_sub_assign (m_box m) v\<rparr>"

text \<open>
  The binary \<open>+\<close> and \<open>-\<close> come from \<open>boost::additive<Mask<N>, Position<N>>\<close>: copy
  the left operand and apply the compound assignment. \<open>operator&(Mask, Box)\<close> does the
  same with \<open>&=\<close>.
\<close>

definition Mask_add :: "mask \<Rightarrow> position \<Rightarrow> mask" where
  "Mask_add m v = Mask_add_assign m v"

definition Mask_sub :: "mask \<Rightarrow> position \<Rightarrow> mask" where
  "Mask_sub m v = Mask_sub_assign m v"

definition Mask_and :: "mask \<Rightarrow> box \<Rightarrow> mask" where
  "Mask_and reg bounds = Mask_and_assign reg bounds"

text \<open>
  The invariant of a \<open>Mask<N>\<close>: front and back have the mask's dimension and the flags
  raster answers exactly the positions of the box's shape (\<open>flags.shape() == box.shape()\<close>).
\<close>

definition Mask_invariant :: "nat \<Rightarrow> mask \<Rightarrow> bool" where
  "Mask_invariant n m =
     (length (m_front (m_box m)) = n \<and> length (m_back (m_box m)) = n \<and>
      dom (m_flags m) = Collect (in_shape (Box_shape (m_box m))))"

section \<open>Windows and patches of the filter engine\<close>

text \<open>
  The window type \<open>TWindow\<close> of a kernel is a template parameter; the two regions of
  the sources that serve as structuring elements are a box and a mask.
\<close>

datatype window = BoxWindow box | MaskWindow mask

fun Window_box :: "window \<Rightarrow> box" where
  "Window_box (BoxWindow b) = b"
| "Window_box (MaskWindow m) = m_box m"

fun Window_add_assign :: "window \<Rightarrow> position \<Rightarrow> window" where
  "Window_add_assign (BoxWindow b) v = BoxWindow (Box_add_assign b v)"
| "Window_add_assign (MaskWindow m) v = MaskWindow (Mask_add_assign m v)"

fun Window_sub_assign :: "window \<Rightarrow> position \<Rightarrow> window" where
  "Window_sub_assign (BoxWindow b) v = BoxWindow (Box_sub_assign b v)"
| "Window_sub_assign (MaskWindow m) v = MaskWindow (Mask_sub_assign m v)"

text \<open>
  Modelled from the spec: the iterators of \<open>Box\<close> and \<open>Mask\<close> (BoxIterator.h and
  MaskIterator.h are not among the sources). A box yields the positions between front and
  back in row-major order (the last axis varies fastest); a mask yields the positions of
  its box that are flagged.
\<close>

fun Box_iterate :: "position \<Rightarrow> position \<Rightarrow> position list" where
  "Box_iterate [] [] = [[]]"
| "Box_iterate (f # fs) (b # bs) = concat (map (\<lambda>x. map ((#) x) (Box_iterate fs bs)) [f..b])"
| "Box_iterate _ _ = []"

definition Box_positions :: "box \<Rightarrow> position list" where
  "Box_positions b = Box_iterate (m_front b) (m_back b)"

definition Mask_positions :: "mask \<Rightarrow> position list" where
  "Mask_positions m = filter (\<lambda>p. Mask_at m p = Some True) (Box_positions (m_box m))"

fun Window_positions :: "window \<Rightarrow> position list" where
  "Window_positions (BoxWindow b) = Box_positions b"
| "Window_positions (MaskWindow m) = Mask_positions m"

text \<open>
  Modelled from the spec: the operations of \<open>Patch\<close> the kernels call. \<open>patch >>= pos\<close>
  shifts the patch to a position by translating its region, \<open>patch <<= pos\<close> shifts it
  back, and iterating a patch reads the parent at every position of the region. The
  values are \<open>None\<close> when the parent does not answer one of the positions (the caller
  must wrap the input in an extrapolation policy then).
\<close>

definition Patch_shift :: "('a, window) patch \<Rightarrow> position \<Rightarrow> ('a, window) patch" where
  "Patch_shift p v = p\<lparr>region := Window_add_assign (region p) v\<rparr>"

definition Patch_unshift :: "('a, window) patch \<Rightarrow> position \<Rightarrow> ('a, window) patch" where
  "Patch_unshift p v = p\<lparr>region := Window_sub_assign (region p) v\<rparr>"

definition Patch_values :: "('a, window) patch \<Rightarrow> 'a list option" where
  "Patch_values p = those (map (parent p) (Window_positions (region p)))"

section \<open>Kernels (Linx/Transforms/Filters.h)\<close>

text \<open>
  \<open>MinimumFilter::operator()\<close> and \<open>MaximumFilter::operator()\<close> dereference
  \<open>std::min_element\<close> and \<open>std::max_element\<close> of the neighbours: the smallest and
  the largest value. On no neighbours the iterator is the end of the range and the
  dereference is undefined: \<open>None\<close>.
\<close>

fun MinimumFilter :: "'a::linorder list \<Rightarrow> 'a option" where
  "MinimumFilter [] = None"
| "MinimumFilter (x # xs) = Some (fold min xs x)"

fun MaximumFilter :: "'a::linorder list \<Rightarrow> 'a option" where
  "MaximumFilter [] = None"
| "MaximumFilter (x # xs) = Some (fold max xs x)"

text \<open>
  \<open>BinaryErosion::operator()(neighbors)\<close> is \<open>std::all_of\<close> and
  \<open>BinaryDilation::operator()(neighbors)\<close> is \<open>std::any_of\<close> of the neighbours, on
  Boolean values.
\<close>

definition BinaryErosion :: "bool list \<Rightarrow> bool" where
  "BinaryErosion neighbors = list_all (\<lambda>e. e) neighbors"

definition BinaryDilation :: "bool list \<Rightarrow> bool" where
  "BinaryDilation neighbors = list_ex (\<lambda>e. e) neighbors"

text \<open>
  The three-argument operators \<open>operator()(in, patch, pos)\<close>. The patch is passed by
  reference and changed in place, so the model returns it next to the value. The first
  branch returns before the patch is touched.
\<close>

definition BinaryErosion_at ::
  "bool raster \<Rightarrow> (bool, window) patch \<Rightarrow> position \<Rightarrow> bool option \<times> (bool, window) patch" where
  "BinaryErosion_at inp ptch pos =
     (case inp pos of
        None \<Rightarrow> (None, ptch)
      | Some c \<Rightarrow>
          if \<not> c then (Some False, ptch)
          else
            let p1 = Patch_shift ptch pos;
                out = map_option BinaryErosion (Patch_values p1);
                p2 = Patch_unshift p1 pos
            in (out, p2))"

definition BinaryDilation_at ::
  "bool raster \<Rightarrow> (bool, window) patch \<Rightarrow> position \<Rightarrow> bool option \<times> (bool, window) patch" where
  "BinaryDilation_at inp ptch pos =
     (case inp pos of
        None \<Rightarrow> (None, ptch)
      | Some c \<Rightarrow>
          if c then (Some True, ptch)
          else
            let p1 = Patch_shift ptch pos;
                out = map_option BinaryDilation (Patch_values p1);
                p2 = Patch_unshift p1 pos
            in (out, p2))"

text \<open>
  Modelled from the spec: \<open>SimpleFilter\<close> (SimpleFilter.h is not among the sources)
  evaluates a kernel at a position of the output domain by taking the neighbourhood
  patch of the input at that position and invoking the kernel on it.
\<close>

definition MinimumFilter_at :: "'a::linorder raster \<Rightarrow> window \<Rightarrow> position \<Rightarrow> 'a option" where
  "MinimumFilter_at inp w pos =
     Option.bind (Patch_values (Patch_shift (Raster_patch inp w) pos)) MinimumFilter"

definition MaximumFilter_at :: "'a::linorder raster \<Rightarrow> window \<Rightarrow> position \<Rightarrow> 'a option" where
  "MaximumFilter_at inp w pos =
     Option.bind (Patch_values (Patch_shift (Raster_patch inp w) pos)) MaximumFilter"

text \<open>
  \<open>std::inner_product(first1, last1, first2, init)\<close>: the accumulator starts at
  \<open>init\<close> and takes \<open>acc + (*first1) * (*first2)\<close> along the first range. The second
  range is read as far as the first one goes; reading past its end is undefined: \<open>None\<close>.
\<close>

fun inner_product :: "'a::{plus,times} list \<Rightarrow> 'a list \<Rightarrow> 'a \<Rightarrow> 'a option" where
  "inner_product [] ys init = Some init"
| "inner_product (x # xs) [] init = None"
| "inner_product (x # xs) (y # ys) init = inner_product xs ys (init + x * y)"

text \<open>
  \<open>Correlation::operator()\<close> runs the inner product over \<open>m_values\<close> from begin to
  end, \<open>Convolution::operator()\<close> from \<open>rbegin\<close> to \<open>rend\<close>, both from \<open>T {}\<close>.
  \<open>Correlation::init_impl\<close> conjugates the values of a complex \<open>T\<close> only and
  \<open>Convolution::init_impl\<close> is empty, so a kernel over a real \<open>T\<close> holds the values
  it was built from.
\<close>

definition Correlation :: "'a::{zero,plus,times} list \<Rightarrow> 'a list \<Rightarrow> 'a option" where
  "Correlation m_values neighbors = inner_product m_values neighbors 0"

definition Convolution :: "'a::{zero,plus,times} list \<Rightarrow> 'a list \<Rightarrow> 'a option" where
  "Convolution m_values neighbors = inner_product (rev m_values) neighbors 0"

text \<open>
  \<open>std::nth_element(first, nth, last)\<close> is a library function; the C++ standard fixes
  its result only up to this contract: the range is permuted, the element at \<open>nth\<close> is
  the one a full sort would put there, no element before it is greater and no element
  after it is smaller; with \<open>nth == last\<close> the call has no effect.
\<close>

definition nth_element_post :: "'a::linorder list \<Rightarrow> nat \<Rightarrow> 'a list \<Rightarrow> bool" where
  "nth_element_post v n v' =
     (mset v' = mset v \<and>
      (if n < length v
       then list_all (\<lambda>x. x \<le> v' ! n) (take n v') \<and> list_all (\<lambda>x. v' ! n \<le> x) (drop (Suc n) v')
       else v' = v))"

definition nth_element_spec :: "('a::linorder list \<Rightarrow> nat \<Rightarrow> 'a list) \<Rightarrow> bool" where
  "nth_element_spec sel = (\<forall>v n. n \<le> length v \<longrightarrow> nth_element_post v n (sel v n))"

text \<open>One selection that meets the contract: sort the whole range.\<close>

definition sort_select :: "'a::linorder list \<Rightarrow> nat \<Rightarrow> 'a list" where
  "sort_select v n = (if n < length v then sort v else v)"

text \<open>
  \<open>MedianFilter::operator()\<close>, over any selection \<open>nth_element\<close> and \<open>T = double\<close>
  taken as a real number. The neighbours are copied to \<open>v\<close>, \<open>n\<close> is the index
  \<open>size / 2\<close>; an odd count returns \<open>*n\<close> after the first selection; otherwise a second
  selection runs at \<open>n + 1\<close> and the result is \<open>(*n + *(n + 1)) * .5\<close>. When
  \<open>n + 1\<close> is not an index of \<open>v\<close> (counts 0 and 2) the read \<open>*(n + 1)\<close> is past the
  end of the buffer: \<open>None\<close>.
\<close>

definition MedianFilter :: "(real list \<Rightarrow> nat \<Rightarrow> real list) \<Rightarrow> real list \<Rightarrow> real option" where
  "MedianFilter nth_element neighbors =
     (let v = neighbors;
          sz = length v;
          n = sz div 2;
          v1 = nth_element v n
      in if sz mod 2 = 1 then Some (v1 ! n)
         else
           let v2 = nth_element v1 (n + 1)
           in if n + 1 < sz then Some ((v2 ! n + v2 ! (n + 1)) * 0.5) else None)"

section \<open>Grid (LitlRaster/Grid.h)\<close>

text \<open>
  \<open>Box::length(i)\<close> is \<open>back[i] - front[i] + 1\<close> (the spec's \<open>shape(i)\<close>). The C++
  operators \<open>/\<close> and \<open>%\<close> on \<open>Index\<close> truncate towards zero: \<open>sdiv\<close> and \<open>smod\<close>.
\<close>

definition Box_length :: "box \<Rightarrow> nat \<Rightarrow> int" where
  "Box_length b i = m_back b ! i - m_front b ! i + 1"

record grid =
  grid_box :: box
  m_step :: position

text \<open>
  The constructor moves the back of the box down by \<open>(length(i) - 1) % step[i]\<close> on
  every axis. A remainder by zero is undefined: \<open>None\<close>, as is a step or a box that is
  not of one dimension (which the types exclude).
\<close>

definition Grid :: "box \<Rightarrow> position \<Rightarrow> grid option" where
  "Grid b step =
     (if length (m_front b) = length (m_back b) \<and> length step = length (m_back b) \<and>
         list_all (\<lambda>s. s \<noteq> 0) step
      then Some \<lparr>grid_box =
                   \<lparr>m_front = m_front b,
                    m_back = map (\<lambda>i. m_back b ! i - (Box_length b i - 1) smod step ! i)
                               [0..<length (m_back b)]\<rparr>,
                 m_step = step\<rparr>
      else None)"

definition Grid_dimension :: "grid \<Rightarrow> nat" where
  "Grid_dimension g = length (m_front (grid_box g))"

text \<open>\<open>Grid::length(i)\<close>: \<open>m_box.length(i) / m_step[i]\<close>.\<close>

definition Grid_length :: "grid \<Rightarrow> nat \<Rightarrow> int" where
  "Grid_length g i = Box_length (grid_box g) i sdiv (m_step g ! i)"

text \<open>
  \<open>Grid::size()\<close>: \<open>length<0>()\<close> multiplied by \<open>length(i)\<close> for \<open>i\<close> from 1 below the
  dimension. It reads axis 0, which a grid of dimension 0 does not have: \<open>None\<close>.
\<close>

definition Grid_size :: "grid \<Rightarrow> int option" where
  "Grid_size g =
     (if Grid_dimension g = 0 then None
      else Some (fold (\<lambda>i out. out * Grid_length g i) [1..<Grid_dimension g] (Grid_length g 0)))"

text \<open>
  Modelled from the spec: the positions of a grid (GridIterator.h is not among the
  sources): the positions of its box that are congruent to the front modulo the step on
  every axis.
\<close>

definition on_step :: "position \<Rightarrow> position \<Rightarrow> position \<Rightarrow> bool" where
  "on_step fr step p = list_all2 (\<lambda>d s. d mod s = 0) (pos_sub p fr) step"

definition Grid_positions :: "grid \<Rightarrow> position list" where
  "Grid_positions g =
     filter (on_step (m_front (grid_box g)) (m_step g)) (Box_positions (grid_box g))"

text \<open>
  The count the claim states for the grid built from a box and a step: the product over
  the axes of \<open>ceil(length_i / s_i)\<close>, with the lengths of the box as given.
\<close>

definition ceil_count :: "box \<Rightarrow> position \<Rightarrow> int" where
  "ceil_count b step =
     prod_list (map (\<lambda>i. \<lceil>real_of_int (Box_length b i) / real_of_int (step ! i)\<rceil>)
                  [0..<length (m_back b)])"

section \<open>Resampling methods (Linx/Transforms/impl/ResamplingMethods.h)\<close>

text \<open>
  In \<open>Nearest::at\<close> a \<open>double\<close> is taken as a real number. The conversion of a \<open>double\<close> to the integer
  type \<open>Index\<close>, which \<open>generate\<close> applies when it stores \<open>e + .5\<close> into a position,
  discards the fractional part (truncation towards zero).
\<close>

definition to_Index :: "real \<Rightarrow> int" where
  "to_Index x = (if 0 \<le> x then \<lfloor>x\<rfloor> else \<lceil>x\<rceil>)"

text \<open>\<open>Nearest::at(raster, Vector<double, N>)\<close>: each coordinate becomes \<open>e + .5\<close> as an \<open>Index\<close>.\<close>

definition Nearest_at :: "'a raster \<Rightarrow> real list \<Rightarrow> 'a option" where
  "Nearest_at rst pos = rst (map (\<lambda>e. to_Index (e + 0.5)) pos)"

text \<open>
  Rounding to the nearest integer with ties away from zero (\<open>std::round\<close>), the rounding
  the claim states.
\<close>

definition round_half_away :: "real \<Rightarrow> int" where
  "round_half_away x = (if 0 \<le> x then \<lfloor>x + 1 / 2\<rfloor> else \<lceil>x - 1 / 2\<rceil>)"

text \<open>
  \<open>Linear::at\<close> computes \<open>d * (n - p) + p\<close> in IEEE 754 binary64 arithmetic, where a
  product of zero and an infinity, a difference of equal infinities and every operation
  on a NaN give NaN, and a result too large for the format is an infinity. A \<open>double\<close>
  is here a finite real number, the negative zero (\<open>Fin 0\<close> is the positive one), an
  infinity or NaN.
\<close>

datatype double = Fin real | NZero | PInf | NInf | NaN

fun is_finite :: "double \<Rightarrow> bool" where
  "is_finite (Fin v) = True"
| "is_finite NZero = True"
| "is_finite d = False"

fun is_zero :: "double \<Rightarrow> bool" where
  "is_zero (Fin v) = (v = 0)"
| "is_zero NZero = True"
| "is_zero d = False"

text \<open>The sign bit, and the real value of a finite \<open>double\<close>.\<close>

fun is_neg :: "double \<Rightarrow> bool" where
  "is_neg (Fin v) = (v < 0)"
| "is_neg NZero = True"
| "is_neg NInf = True"
| "is_neg d = False"

fun val :: "double \<Rightarrow> real" where
  "val (Fin v) = v"
| "val d = 0"

text \<open>The largest finite binary64 number.\<close>

definition DBL_MAX :: real where
  "DBL_MAX = (2 - 1 / 2 ^ 52) * 2 ^ 1023"

text \<open>
  The \<open>double\<close> an operation returns when its exact result is the real number \<open>r\<close>.
  The rounding \<open>rnd\<close> of a real number to the precision of the format is a parameter,
  so that nothing below depends on how a result is rounded. An exact zero is a zero of
  the sign \<open>neg0\<close> the operation prescribes; a rounded result above \<open>DBL_MAX\<close> overflows
  to the infinity of its sign, and one rounded to zero is the zero of its sign.
\<close>

definition of_exact :: "(real \<Rightarrow> real) \<Rightarrow> bool \<Rightarrow> real \<Rightarrow> double" where
  "of_exact rnd neg0 r =
     (if r = 0 then (if neg0 then NZero else Fin 0)
      else if DBL_MAX < \<bar>rnd r\<bar> then (if r < 0 then NInf else PInf)
      else if rnd r = 0 then (if r < 0 then NZero else Fin 0)
      else Fin (rnd r))"

text \<open>
  Addition: NaN on a NaN and on infinities of opposite signs; an infinity stays; two
  finite numbers give their rounded sum, and a sum that is exactly zero is negative only
  when both operands are negative zeros.
\<close>

definition dadd :: "(real \<Rightarrow> real) \<Rightarrow> double \<Rightarrow> double \<Rightarrow> double" where
  "dadd rnd a b =
     (if a = NaN \<or> b = NaN then NaN
      else if is_finite a \<and> is_finite b then of_exact rnd (is_neg a \<and> is_neg b) (val a + val b)
      else if is_finite a then b
      else if is_finite b then a
      else if a = b then a
      else NaN)"

definition dneg :: "double \<Rightarrow> double" where
  "dneg a =
     (case a of
        Fin v \<Rightarrow> if v = 0 then NZero else Fin (- v)
      | NZero \<Rightarrow> Fin 0
      | PInf \<Rightarrow> NInf
      | NInf \<Rightarrow> PInf
      | NaN \<Rightarrow> NaN)"

definition dsub :: "(real \<Rightarrow> real) \<Rightarrow> double \<Rightarrow> double \<Rightarrow> double" where
  "dsub rnd a b = dadd rnd a (dneg b)"

text \<open>
  Multiplication: NaN on a NaN and on a zero times an infinity; otherwise the sign is
  the exclusive or of the signs, also for a zero.
\<close>

definition dmul :: "(real \<Rightarrow> real) \<Rightarrow> double \<Rightarrow> double \<Rightarrow> double" where
  "dmul rnd a b =
     (if a = NaN \<or> b = NaN then NaN
      else if is_finite a \<and> is_finite b then of_exact rnd (is_neg a \<noteq> is_neg b) (val a * val b)
      else if is_zero a \<or> is_zero b then NaN
      else if is_neg a \<noteq> is_neg b then NInf
      else PInf)"

text \<open>
  \<open>floor<Index>\<close> of a coordinate (the helper is not among the sources; it is the floor
  its name says) and the conversion of the \<open>Index\<close> back to \<open>double\<close> in
  \<open>position.front() - f\<close>. The floor of an infinity or of NaN is an undefined
  conversion: \<open>None\<close>.
\<close>

fun floor_Index :: "double \<Rightarrow> int option" where
  "floor_Index (Fin v) = Some \<lfloor>v\<rfloor>"
| "floor_Index NZero = Some 0"
| "floor_Index d = None"

definition of_Index :: "(real \<Rightarrow> real) \<Rightarrow> int \<Rightarrow> double" where
  "of_Index rnd f = of_exact rnd False (real_of_int f)"

text \<open>
  \<open>Linear::at\<close> for \<open>T = double\<close>, by recursion on the dimension of the position. The
  overload for \<open>N = 1\<close> reads the two taps \<open>{f, indices...}\<close> and \<open>{f + 1, indices...}\<close>;
  the one for \<open>N \<noteq> 1\<close> works on the last coordinate, passes the other coordinates on,
  and puts \<open>f\<close> and \<open>f + 1\<close> in front of the indices. A tap the raster does not answer
  is an undefined read: \<open>None\<close>. There is no position of dimension 0.
\<close>

definition lerp :: "(real \<Rightarrow> real) \<Rightarrow> double \<Rightarrow> double \<Rightarrow> double \<Rightarrow> double" where
  "lerp rnd d p n = dadd rnd (dmul rnd d (dsub rnd n p)) p"

function Linear_at ::
  "(real \<Rightarrow> real) \<Rightarrow> double raster \<Rightarrow> double list \<Rightarrow> position \<Rightarrow> double option" where
  "Linear_at rnd rst [] indices = None"
| "Linear_at rnd rst [x] indices =
     (case floor_Index x of
        None \<Rightarrow> None
      | Some f \<Rightarrow>
          let d = dsub rnd x (of_Index rnd f)
          in case rst (f # indices) of
               None \<Rightarrow> None
             | Some p \<Rightarrow>
                 (case rst ((f + 1) # indices) of
                    None \<Rightarrow> None
                  | Some n \<Rightarrow> Some (lerp rnd d p n)))"
| "Linear_at rnd rst (x # y # zs) indices =
     (case floor_Index (last (x # y # zs)) of
        None \<Rightarrow> None
      | Some f \<Rightarrow>
          let d = dsub rnd (last (x # y # zs)) (of_Index rnd f);
              pos = butlast (x # y # zs)
          in case Linear_at rnd rst pos (f # indices) of
               None \<Rightarrow> None
             | Some p \<Rightarrow>
                 (case Linear_at rnd rst pos ((f + 1) # indices) of
                    None \<Rightarrow> None
                  | Some n \<Rightarrow> Some (lerp rnd d p n)))"
  by pat_completeness auto
termination
  by (relation "measure (\<lambda>(rnd, rst, pos, indices). length pos)") auto







text \<open>
  The rounding of results that need none: every result of the evaluations below that
  use it is a binary64 number or overflows, so binary64 rounding gives the same.
\<close>

definition no_rounding :: "real \<Rightarrow> real" where
  "no_rounding r = r"

section \<open>Affinity (Linx/Transforms/Affinity.h)\<close>

text \<open>
  Eigen's vectors and row-major square matrices over \<open>double\<close>, taken as lists and lists
  of rows of real numbers, with the sum, difference and negation of vectors and the
  product of a matrix and a vector.
\<close>

type_synonym vec = "real list"
type_synonym matrix = "real list list"

definition vec_add :: "vec \<Rightarrow> vec \<Rightarrow> vec" where
  "vec_add u v = map2 (+) u v"

definition vec_sub :: "vec \<Rightarrow> vec \<Rightarrow> vec" where
  "vec_sub u v = map2 (-) u v"

definition dot :: "vec \<Rightarrow> vec \<Rightarrow> real" where
  "dot u v = sum_list (map2 (*) u v)"

definition mat_vec :: "matrix \<Rightarrow> vec \<Rightarrow> vec" where
  "mat_vec a v = map (\<lambda>row. dot row v) a"

definition mat_neg :: "matrix \<Rightarrow> matrix" where
  "mat_neg a = map (map uminus) a"

definition square :: "nat \<Rightarrow> matrix \<Rightarrow> bool" where
  "square n a = (length a = n \<and> list_all (\<lambda>row. length row = n) a)"

record affinity =
  m_map :: matrix
  m_translation :: vec
  m_center :: vec

text \<open>
  \<open>Affinity::inverse()\<close>: the map becomes its inverse, then the translation becomes
  \<open>-m_map * m_translation\<close> with the new map; the center is not assigned. The inversion
  itself is Eigen's \<open>inverse()\<close>, a parameter here. The free function \<open>inverse\<close> applies
  it to a copy.
\<close>

definition Affinity_inverse :: "(matrix \<Rightarrow> matrix) \<Rightarrow> affinity \<Rightarrow> affinity" where
  "Affinity_inverse minv A =
     (let A1 = A\<lparr>m_map := minv (m_map A)\<rparr>
      in A1\<lparr>m_translation := mat_vec (mat_neg (m_map A1)) (m_translation A1)\<rparr>)"

definition inverse_of :: "(matrix \<Rightarrow> matrix) \<Rightarrow> affinity \<Rightarrow> affinity" where
  "inverse_of minv A = Affinity_inverse minv A"

text \<open>\<open>Affinity::operator()\<close>: \<open>m_translation + m_center + m_map * (in - m_center)\<close>.\<close>

definition Affinity_apply :: "affinity \<Rightarrow> vec \<Rightarrow> vec" where
  "Affinity_apply A x =
     vec_add (vec_add (m_translation A) (m_center A))
       (mat_vec (m_map A) (vec_sub x (m_center A)))"

text \<open>
  What the parameter must do on a matrix \<open>a\<close> of dimension \<open>n\<close>, which is what makes
  \<open>a\<close> non-singular: its result is square of the same dimension and undoes \<open>a\<close>.
\<close>

definition inverts :: "nat \<Rightarrow> (matrix \<Rightarrow> matrix) \<Rightarrow> matrix \<Rightarrow> bool" where
  "inverts n minv a =
     (square n (minv a) \<and> (\<forall>v. length v = n \<longrightarrow> mat_vec (minv a) (mat_vec a v) = v))"

text \<open>The closed-form inverse of a matrix of dimension 2, by the adjugate.\<close>

fun inverse2 :: "matrix \<Rightarrow> matrix" where
  "inverse2 [[a, b], [c, d]] =
     [[d / (a * d - b * c), - b / (a * d - b * c)],
      [- c / (a * d - b * c), a / (a * d - b * c)]]"
| "inverse2 m = m"

section \<open>Arithmetic of positions\<close>

lemma pos_add_sub_cancel:
  "length p = length v \<Longrightarrow> pos_sub (pos_add p v) v = p"
  by (induction p v rule: list_induct2) (simp_all add: pos_add_def pos_sub_def)

lemma length_pos_add [simp]: "length (pos_add p v) = min (length p) (length v)"
  by (simp add: pos_add_def)

lemma length_pos_sub [simp]: "length (pos_sub p v) = min (length p) (length v)"
  by (simp add: pos_sub_def)

lemma Box_add_sub_cancel:
  "length (m_front b) = length v \<Longrightarrow> length (m_back b) = length v \<Longrightarrow>
   Box_sub_assign (Box_add_assign b v) v = b"
  by (cases b) (simp add: Box_add_assign_def Box_sub_assign_def pos_add_sub_cancel)

lemma set_Box_iterate:
  "length f = length b \<Longrightarrow>
   set (Box_iterate f b) = {p. list_all2 (\<le>) f p \<and> list_all2 (\<le>) p b}"
proof (induction f b rule: list_induct2)
  case Nil
  then show ?case by auto
next
  case (Cons x xs y ys)
  show ?case
  proof (rule set_eqI)
    fix p
    show "p \<in> set (Box_iterate (x # xs) (y # ys)) \<longleftrightarrow>
        p \<in> {p. list_all2 (\<le>) (x # xs) p \<and> list_all2 (\<le>) p (y # ys)}"
    proof (cases p)
      case Nil
      then show ?thesis by auto
    next
      case (Cons a q)
      have "p \<in> set (Box_iterate (x # xs) (y # ys)) \<longleftrightarrow>
          x \<le> a \<and> a \<le> y \<and> q \<in> set (Box_iterate xs ys)"
        unfolding Cons by auto
      then show ?thesis unfolding Cons.IH Cons by auto
    qed
  qed
qed

lemma set_Box_positions:
  "length (m_front b) = length (m_back b) \<Longrightarrow> set (Box_positions b) = {p. Box_contains b p}"
  by (simp add: Box_positions_def Box_contains_def set_Box_iterate)

section \<open>Translation of a mask\<close>

text \<open>
  C8. Translating a mask by a position \<open>v\<close> of its dimension moves front and back by
  \<open>v\<close> and leaves the flags raster as it was; translating by \<open>v\<close> and then back by
  \<open>v\<close> gives a mask equal (\<open>operator==\<close>) to the original: \<open>(m + v) - v == m\<close>.
\<close>

theorem Mask_translate_frame:
  assumes "length (m_front (m_box m)) = length v" and "length (m_back (m_box m)) = length v"
  shows "m_front (m_box (Mask_add m v)) = pos_add (m_front (m_box m)) v \<and>
         m_back (m_box (Mask_add m v)) = pos_add (m_back (m_box m)) v \<and>
         m_flags (Mask_add m v) = m_flags m \<and>
         m_flags (Mask_sub m v) = m_flags m \<and>
         Mask_eq (Mask_sub (Mask_add m v) v) m \<and>
         Mask_sub (Mask_add m v) v = m"
proof -
  have box: "m_box (Mask_add m v) = Box_add_assign (m_box m) v"
    by (simp add: Mask_add_def Mask_add_assign_def)
  have flags: "m_flags (Mask_add m v) = m_flags m" "m_flags (Mask_sub m v) = m_flags m"
    by (simp_all add: Mask_add_def Mask_sub_def Mask_add_assign_def Mask_sub_assign_def)
  have "Box_sub_assign (Box_add_assign (m_box m) v) v = m_box m"
    using assms by (rule Box_add_sub_cancel)
  then have round: "Mask_sub (Mask_add m v) v = m"
    by (simp add: Mask_add_def Mask_sub_def Mask_add_assign_def Mask_sub_assign_def)
  from box flags round show ?thesis
    by (simp add: Mask_eq_def Box_add_assign_def)
qed

theorem Mask_translate_frame_witness:
  "Mask_eq (Mask_sub (Mask_add (Mask \<lparr>m_front = [0, 0], m_back = [2, 1]\<rparr> True) [5, -3]) [5, -3])
     (Mask \<lparr>m_front = [0, 0], m_back = [2, 1]\<rparr> True) \<and>
   m_front (m_box (Mask_add (Mask \<lparr>m_front = [0, 0], m_back = [2, 1]\<rparr> True) [5, -3])) = [5, -3] \<and>
   m_back (m_box (Mask_add (Mask \<lparr>m_front = [0, 0], m_back = [2, 1]\<rparr> True) [5, -3])) = [7, -2]"
  using Mask_translate_frame [of "Mask \<lparr>m_front = [0, 0], m_back = [2, 1]\<rparr> True" "[5, -3]"]
  by (simp add: Mask_def Mask_eq_def pos_add_def)

section \<open>Clamping a mask inside a box\<close>

lemma all2_le_max:
  "length f = length g \<Longrightarrow>
   list_all2 (\<le>) (map2 max f g) (p::int list) \<longleftrightarrow> list_all2 (\<le>) f p \<and> list_all2 (\<le>) g p"
proof (induction f g arbitrary: p rule: list_induct2)
  case Nil
  then show ?case by simp
next
  case (Cons x xs y ys)
  then show ?case by (cases p) auto
qed

lemma all2_le_min:
  "length f = length g \<Longrightarrow>
   list_all2 (\<le>) (p::int list) (map2 min f g) \<longleftrightarrow> list_all2 (\<le>) p f \<and> list_all2 (\<le>) p g"
proof (induction f g arbitrary: p rule: list_induct2)
  case Nil
  then show ?case by simp
next
  case (Cons x xs y ys)
  then show ?case by (cases p) auto
qed

lemma Box_contains_and:
  assumes "length (m_front b) = n" "length (m_back b) = n"
    "length (m_front c) = n" "length (m_back c) = n"
  shows "Box_contains (Box_and_assign b c) p \<longleftrightarrow> Box_contains b p \<and> Box_contains c p"
  using assms
  by (simp add: Box_contains_def Box_and_assign_def all2_le_max all2_le_min) blast

lemma in_shape_clamped_lists:
  assumes "length f = n" "length bk = n" "length fr = n" "list_all2 (\<le>) f p" "list_all2 (\<le>) p bk"
  shows "in_shape (Box_shape (Box_sub_assign \<lparr>m_front = f, m_back = bk\<rparr> fr)) (pos_sub p f)"
  using assms
  by (auto simp: in_shape_def Box_shape_def Box_sub_assign_def pos_sub_def list_all2_conv_all_nth)

lemma in_shape_clamped:
  assumes "length (m_front b) = n" "length (m_back b) = n" "length fr = n" "Box_contains b p"
  shows "in_shape (Box_shape (Box_sub_assign b fr)) (pos_sub p (m_front b))"
proof (cases b)
  case (fields f bk)
  with assms show ?thesis
    by (simp add: in_shape_clamped_lists Box_contains_def)
qed

lemma pos_rebase:
  assumes "length f = n" "length fr = n" "length p = n"
  shows "pos_add (pos_sub p f) (pos_sub f fr) = pos_sub p fr"
  using assms
  by (auto simp: pos_sub_def pos_add_def list_eq_iff_nth_eq)


lemma Mask_at_invariant:
  assumes "Mask_invariant n m"
  shows "Mask_at m p = Some True \<or> Mask_at m p = Some False"
proof (cases "Box_contains (m_box m) p")
  case True
  obtain f bk where b: "m_box m = \<lparr>m_front = f, m_back = bk\<rparr>" by (cases "m_box m") auto
  from assms b have len: "length f = n" "length bk = n" by (simp_all add: Mask_invariant_def)
  from True b have "list_all2 (\<le>) f p" "list_all2 (\<le>) p bk" by (simp_all add: Box_contains_def)
  then have "in_shape (Box_shape (m_box m)) (pos_sub p f)"
    using len b
    by (auto simp: in_shape_def Box_shape_def pos_sub_def list_all2_conv_all_nth)
  then have "pos_sub p f \<in> dom (m_flags m)"
    using assms by (simp add: Mask_invariant_def)
  then obtain fl where "m_flags m (pos_sub p f) = Some fl" by auto
  with True b show ?thesis by (cases fl) (simp_all add: Mask_at_def)
next
  case False
  then show ?thesis by (simp add: Mask_at_def)
qed


lemma Box_shape_sub:
  assumes "length (m_front b) = n" "length (m_back b) = n" "length fr = n"
  shows "Box_shape (Box_sub_assign b fr) = Box_shape b"
  using assms
  by (auto simp: Box_shape_def Box_sub_assign_def pos_sub_def list_eq_iff_nth_eq)

lemma in_shape_inner:
  assumes len: "length f = n" "length bk = n" "length fc = n" "length bc = n"
    and q: "in_shape (map2 (\<lambda>b a. b - a + 1) (map2 min bk bc) (map2 max f fc)) q"
  shows "in_shape (map2 (\<lambda>b a. b - a + 1) bk f) (pos_add q (pos_sub (map2 max f fc) f))"
  using assms
  by (auto simp: in_shape_def pos_add_def pos_sub_def list_all2_conv_all_nth)

lemma Mask_and_at:
  assumes inv: "Mask_invariant n m" and c: "length (m_front c) = n" "length (m_back c) = n"
  shows "Mask_at (Mask_and m c) p = Some (Mask_at m p = Some True \<and> Box_contains c p)"
proof -
  let ?b = "m_box m" and ?b' = "Box_and_assign (m_box m) c"
  let ?fr = "m_front (m_box m)"
  from inv have len: "length (m_front ?b) = n" "length (m_back ?b) = n"
    by (simp_all add: Mask_invariant_def)
  have len': "length (m_front ?b') = n" "length (m_back ?b') = n"
    using len c by (simp_all add: Box_and_assign_def)
  have cont: "Box_contains ?b' p \<longleftrightarrow> Box_contains ?b p \<and> Box_contains c p"
    using len c by (rule Box_contains_and)
  have flags: "m_flags (Mask_and m c) =
      Patch_copy \<lparr>parent = m_flags m, region = Box_sub_assign ?b' ?fr\<rparr>"
    and box: "m_box (Mask_and m c) = ?b'"
    by (simp_all add: Mask_and_def Mask_and_assign_def Raster_patch_def Let_def)
  show ?thesis
  proof (cases "Box_contains ?b' p")
    case False
    with cont box show ?thesis by (auto simp: Mask_at_def)
  next
    case True
    then have fp: "list_all2 (\<le>) (m_front ?b') p" and pb: "list_all2 (\<le>) p (m_back ?b')"
      by (simp_all add: Box_contains_def)
    from fp len' have lp: "length p = n" by (simp add: list_all2_lengthD [symmetric])
    have ins: "in_shape (Box_shape (Box_sub_assign ?b' ?fr)) (pos_sub p (m_front ?b'))"
      using len'(1) len'(2) len(1) True by (rule in_shape_clamped)
    have reb: "pos_add (pos_sub p (m_front ?b')) (pos_sub (m_front ?b') ?fr) = pos_sub p ?fr"
      using len'(1) len(1) lp by (rule pos_rebase)
    have "Mask_at (Mask_and m c) p = m_flags m (pos_sub p ?fr)"
      using True ins reb by (simp add: Mask_at_def box flags Patch_copy_def Box_sub_assign_def)
    also have "\<dots> = Mask_at m p"
      using True cont by (simp add: Mask_at_def)
    finally have eq: "Mask_at (Mask_and m c) p = Mask_at m p" .
    from Mask_at_invariant [OF inv, of p] True cont show ?thesis
      unfolding eq by auto
  qed
qed


lemma dom_Raster_fill: "dom (Raster_fill shape v) = Collect (in_shape shape)"
  by (auto simp: Raster_fill_def split: if_splits)

lemma Mask_ctor_invariant:
  "length (m_front b) = n \<Longrightarrow> length (m_back b) = n \<Longrightarrow> Mask_invariant n (Mask b flag)"
  by (simp add: Mask_invariant_def Mask_def dom_Raster_fill)

lemma Mask_and_invariant:
  assumes inv: "Mask_invariant n m" and c: "length (m_front c) = n" "length (m_back c) = n"
  shows "Mask_invariant n (Mask_and m c)"
proof -
  let ?b = "m_box m" and ?b' = "Box_and_assign (m_box m) c"
  let ?fr = "m_front (m_box m)"
  from inv have len: "length (m_front ?b) = n" "length (m_back ?b) = n"
    and dom: "dom (m_flags m) = Collect (in_shape (Box_shape ?b))"
    by (simp_all add: Mask_invariant_def)
  have len': "length (m_front ?b') = n" "length (m_back ?b') = n"
    using len c by (simp_all add: Box_and_assign_def)
  have flags: "m_flags (Mask_and m c) =
      Patch_copy \<lparr>parent = m_flags m, region = Box_sub_assign ?b' ?fr\<rparr>"
    and box: "m_box (Mask_and m c) = ?b'"
    by (simp_all add: Mask_and_def Mask_and_assign_def Raster_patch_def Let_def)
  have shape: "Box_shape (Box_sub_assign ?b' ?fr) = Box_shape ?b'"
    using len' len(1) by (rule Box_shape_sub)
  have inner: "m_flags m (pos_add q (pos_sub (m_front ?b') ?fr)) \<noteq> None"
    if q: "in_shape (Box_shape ?b') q" for q
  proof -
    from q have "in_shape (map2 (\<lambda>b a. b - a + 1) (map2 min (m_back ?b) (m_back c))
        (map2 max (m_front ?b) (m_front c))) q"
      by (simp add: Box_shape_def Box_and_assign_def)
    with len c have "in_shape (map2 (\<lambda>b a. b - a + 1) (m_back ?b) (m_front ?b))
        (pos_add q (pos_sub (map2 max (m_front ?b) (m_front c)) (m_front ?b)))"
      by (rule in_shape_inner)
    then have "pos_add q (pos_sub (m_front ?b') ?fr) \<in> Collect (in_shape (Box_shape ?b))"
      by (simp add: Box_shape_def Box_and_assign_def)
    with dom show ?thesis by blast
  qed
  have fr: "m_front (Box_sub_assign ?b' ?fr) = pos_sub (m_front ?b') ?fr"
    by (simp add: Box_sub_assign_def)
  have "Patch_copy \<lparr>parent = m_flags m, region = Box_sub_assign ?b' ?fr\<rparr> q \<noteq> None
      \<longleftrightarrow> in_shape (Box_shape ?b') q" for q
    using inner [of q] by (simp add: Patch_copy_def shape fr)
  then have "dom (m_flags (Mask_and m c)) = Collect (in_shape (Box_shape ?b'))"
    unfolding flags by (auto simp: dom_def)
  with len' box show ?thesis by (simp add: Mask_invariant_def)
qed

text \<open>
  C5. Clamping a mask \<open>m\<close> to a box \<open>c\<close> of the same dimension gives a mask whose
  bounding box is \<open>m.box() & c\<close>, which holds exactly the positions lying in both boxes,
  and in which a position is flagged exactly when it is flagged in \<open>m\<close> and lies inside
  \<open>c\<close>: \<open>(m & c)[p] == (m[p] and c contains p)\<close> for every position \<open>p\<close>. The result
  keeps the invariant of a mask.
\<close>

theorem Mask_and_intersection:
  assumes "Mask_invariant n m" and "length (m_front c) = n" and "length (m_back c) = n"
  shows "m_box (Mask_and m c) = Box_and_assign (m_box m) c \<and>
    (\<forall>p. Box_contains (m_box (Mask_and m c)) p = (Box_contains (m_box m) p \<and> Box_contains c p)) \<and>
    (\<forall>p. Mask_at (Mask_and m c) p = Some (Mask_at m p = Some True \<and> Box_contains c p)) \<and>
    {p. Mask_at (Mask_and m c) p = Some True} = {p. Mask_at m p = Some True \<and> Box_contains c p} \<and>
    Mask_invariant n (Mask_and m c)"
proof -
  have box: "m_box (Mask_and m c) = Box_and_assign (m_box m) c"
    by (simp add: Mask_and_def Mask_and_assign_def Let_def)
  from assms have len: "length (m_front (m_box m)) = n" "length (m_back (m_box m)) = n"
    by (simp_all add: Mask_invariant_def)
  have cont: "Box_contains (m_box (Mask_and m c)) p = (Box_contains (m_box m) p \<and> Box_contains c p)" for p
    unfolding box using len assms(2,3) by (rule Box_contains_and)
  have at: "Mask_at (Mask_and m c) p = Some (Mask_at m p = Some True \<and> Box_contains c p)" for p
    using assms by (rule Mask_and_at)
  have inv: "Mask_invariant n (Mask_and m c)"
    using assms by (rule Mask_and_invariant)
  from box cont at inv show ?thesis by simp
qed

theorem Mask_and_intersection_witness:
  "Mask_invariant 2 (Mask \<lparr>m_front = [0, 0], m_back = [2, 2]\<rparr> True) \<and>
   m_box (Mask_and (Mask \<lparr>m_front = [0, 0], m_back = [2, 2]\<rparr> True) \<lparr>m_front = [1, 1], m_back = [5, 5]\<rparr>)
     = \<lparr>m_front = [1, 1], m_back = [2, 2]\<rparr> \<and>
   Mask_at (Mask_and (Mask \<lparr>m_front = [0, 0], m_back = [2, 2]\<rparr> True) \<lparr>m_front = [1, 1], m_back = [5, 5]\<rparr>) [1, 2]
     = Some True \<and>
   Mask_at (Mask_and (Mask \<lparr>m_front = [0, 0], m_back = [2, 2]\<rparr> True) \<lparr>m_front = [1, 1], m_back = [5, 5]\<rparr>) [0, 2]
     = Some False"
proof -
  let ?m = "Mask \<lparr>m_front = [0, 0], m_back = [2, 2]\<rparr> True"
  let ?c = "\<lparr>m_front = [1, 1], m_back = [5, 5]\<rparr>"
  have inv: "Mask_invariant 2 ?m" by (rule Mask_ctor_invariant) simp_all
  have c: "length (m_front ?c) = 2" "length (m_back ?c) = 2" by simp_all
  note th = Mask_and_intersection [OF inv c]
  have at: "Mask_at ?m [1, 2] = Some True" "Mask_at ?m [0, 2] = Some True"
    by (simp_all add: Mask_at_def Mask_def Box_contains_def Raster_fill_def in_shape_def
        Box_shape_def pos_sub_def)
  from th have "m_box (Mask_and ?m ?c) = Box_and_assign (m_box ?m) ?c" by blast
  then have b: "m_box (Mask_and ?m ?c) = \<lparr>m_front = [1, 1], m_back = [2, 2]\<rparr>"
    by (simp add: Box_and_assign_def Mask_def)
  from th have "Mask_at (Mask_and ?m ?c) [1, 2] = Some (Mask_at ?m [1, 2] = Some True \<and> Box_contains ?c [1, 2])"
    by blast
  then have p1: "Mask_at (Mask_and ?m ?c) [1, 2] = Some True"
    by (simp add: at Box_contains_def)
  from th have "Mask_at (Mask_and ?m ?c) [0, 2] = Some (Mask_at ?m [0, 2] = Some True \<and> Box_contains ?c [0, 2])"
    by blast
  then have p2: "Mask_at (Mask_and ?m ?c) [0, 2] = Some False"
    by (simp add: at Box_contains_def)
  from inv b p1 p2 show ?thesis by simp
qed

section \<open>Binary morphology\<close>

lemma Window_add_sub_cancel:
  assumes "length (m_front (Window_box w)) = length v" and "length (m_back (Window_box w)) = length v"
  shows "Window_sub_assign (Window_add_assign w v) v = w"
proof (cases w)
  case (BoxWindow b)
  with assms show ?thesis by (simp add: Box_add_sub_cancel)
next
  case (MaskWindow m)
  with assms have "Box_sub_assign (Box_add_assign (m_box m) v) v = m_box m"
    by (simp add: Box_add_sub_cancel)
  with MaskWindow show ?thesis
    by (simp add: Mask_add_assign_def Mask_sub_assign_def)
qed

lemma Patch_shift_unshift:
  assumes "length (m_front (Window_box (region ptch))) = length pos"
    and "length (m_back (Window_box (region ptch))) = length pos"
  shows "Patch_unshift (Patch_shift ptch pos) pos = ptch"
  using assms by (simp add: Patch_shift_def Patch_unshift_def Window_add_sub_cancel)

text \<open>
  C10. For every evaluation of the three-argument \<open>operator()\<close> of \<open>BinaryErosion\<close>
  and of \<open>BinaryDilation\<close> (input, patch, position), with a position of the patch's
  dimension, the patch after the call is the patch before the call, on both branches: the
  early return leaves the patch untouched, and the full evaluation shifts it to the
  position and shifts it back by the same position, which restores it.
\<close>

theorem Binary_at_restores_patch:
  assumes "length (m_front (Window_box (region ptch))) = length pos"
    and "length (m_back (Window_box (region ptch))) = length pos"
  shows "snd (BinaryErosion_at inp ptch pos) = ptch \<and>
         snd (BinaryDilation_at inp ptch pos) = ptch \<and>
         Patch_unshift (Patch_shift ptch pos) pos = ptch"
proof -
  have restore: "Patch_unshift (Patch_shift ptch pos) pos = ptch"
    using assms by (rule Patch_shift_unshift)
  have "snd (BinaryErosion_at inp ptch pos) = ptch"
    by (simp add: BinaryErosion_at_def restore Let_def split: option.split)
  moreover have "snd (BinaryDilation_at inp ptch pos) = ptch"
    by (simp add: BinaryDilation_at_def restore Let_def split: option.split)
  ultimately show ?thesis using restore by simp
qed

theorem Binary_at_restores_patch_witness:
  "BinaryErosion_at [[0] \<mapsto> True, [1] \<mapsto> True, [2] \<mapsto> True, [3] \<mapsto> False]
     (Raster_patch [[0] \<mapsto> True, [1] \<mapsto> True, [2] \<mapsto> True, [3] \<mapsto> False]
        (BoxWindow \<lparr>m_front = [- 1], m_back = [1]\<rparr>)) [1]
     = (Some True,
        Raster_patch [[0] \<mapsto> True, [1] \<mapsto> True, [2] \<mapsto> True, [3] \<mapsto> False]
          (BoxWindow \<lparr>m_front = [- 1], m_back = [1]\<rparr>)) \<and>
   BinaryErosion_at [[0] \<mapsto> True, [1] \<mapsto> True, [2] \<mapsto> True, [3] \<mapsto> False]
     (Raster_patch [[0] \<mapsto> True, [1] \<mapsto> True, [2] \<mapsto> True, [3] \<mapsto> False]
        (BoxWindow \<lparr>m_front = [- 1], m_back = [1]\<rparr>)) [3]
     = (Some False,
        Raster_patch [[0] \<mapsto> True, [1] \<mapsto> True, [2] \<mapsto> True, [3] \<mapsto> False]
          (BoxWindow \<lparr>m_front = [- 1], m_back = [1]\<rparr>))"
proof -
  let ?inp = "[[0] \<mapsto> True, [1] \<mapsto> True, [2] \<mapsto> True, [3::int] \<mapsto> False]"
  let ?p = "Raster_patch ?inp (BoxWindow \<lparr>m_front = [- 1], m_back = [1]\<rparr>)"
  have len: "length (m_front (Window_box (region ?p))) = length [1::int]"
    "length (m_back (Window_box (region ?p))) = length [1::int]"
    "length (m_front (Window_box (region ?p))) = length [3::int]"
    "length (m_back (Window_box (region ?p))) = length [3::int]"
    by (simp_all add: Raster_patch_def)
  have full: "fst (BinaryErosion_at ?inp ?p [1]) = Some True"
    by (simp add: BinaryErosion_at_def BinaryErosion_def Patch_values_def Patch_shift_def
        Raster_patch_def Box_add_assign_def pos_add_def Box_positions_def upto_rec1)
  have early: "fst (BinaryErosion_at ?inp ?p [3]) = Some False"
    by (simp add: BinaryErosion_at_def)
  from Binary_at_restores_patch [OF len(1,2), of ?inp]
  have "snd (BinaryErosion_at ?inp ?p [1]) = ?p" by blast
  with full have one: "BinaryErosion_at ?inp ?p [1] = (Some True, ?p)"
    by (simp add: prod_eq_iff)
  from Binary_at_restores_patch [OF len(3,4), of ?inp]
  have "snd (BinaryErosion_at ?inp ?p [3]) = ?p" by blast
  with early have three: "BinaryErosion_at ?inp ?p [3] = (Some False, ?p)"
    by (simp add: prod_eq_iff)
  from one three show ?thesis by simp
qed

lemma fold_min_bool: "fold min xs a = (a \<and> list_all (\<lambda>e. e) xs)"
  by (induction xs arbitrary: a) (auto simp: min_def)

lemma fold_max_bool: "fold max xs a = (a \<or> list_ex (\<lambda>e. e) xs)"
  by (induction xs arbitrary: a) (auto simp: max_def)

lemma BinaryErosion_is_MinimumFilter:
  "neighbors \<noteq> [] \<Longrightarrow> MinimumFilter neighbors = Some (BinaryErosion neighbors)"
  by (cases neighbors) (simp_all add: BinaryErosion_def fold_min_bool)

lemma BinaryDilation_is_MaximumFilter:
  "neighbors \<noteq> [] \<Longrightarrow> MaximumFilter neighbors = Some (BinaryDilation neighbors)"
  by (cases neighbors) (simp_all add: BinaryDilation_def fold_max_bool)

lemma those_map_member:
  "those (map f ps) = Some vs \<Longrightarrow> p \<in> set ps \<Longrightarrow> \<exists>c. f p = Some c \<and> c \<in> set vs"
  by (induction ps arbitrary: vs) (auto split: option.splits)

lemma BinaryErosion_at_center_in_window:
  assumes vs: "Patch_values (Patch_shift (Raster_patch inp w) pos) = Some vs"
    and c: "pos \<in> set (Window_positions (Window_add_assign w pos))"
  shows "fst (BinaryErosion_at inp (Raster_patch inp w) pos) = MinimumFilter_at inp w pos"
proof -
  from vs have th: "those (map inp (Window_positions (Window_add_assign w pos))) = Some vs"
    by (simp add: Patch_values_def Patch_shift_def Raster_patch_def)
  from those_map_member [OF th c] obtain cv where cv: "inp pos = Some cv" "cv \<in> set vs"
    by blast
  then have ne: "vs \<noteq> []" by auto
  have mn: "MinimumFilter_at inp w pos = Some (BinaryErosion vs)"
    using vs ne by (simp add: MinimumFilter_at_def BinaryErosion_is_MinimumFilter)
  show ?thesis
  proof (cases cv)
    case True
    with cv vs show ?thesis by (simp add: BinaryErosion_at_def mn Let_def)
  next
    case False
    with cv have "\<not> BinaryErosion vs" by (auto simp: BinaryErosion_def list_all_iff)
    with False cv show ?thesis by (simp add: BinaryErosion_at_def mn)
  qed
qed

lemma BinaryDilation_at_center_in_window:
  assumes vs: "Patch_values (Patch_shift (Raster_patch inp w) pos) = Some vs"
    and c: "pos \<in> set (Window_positions (Window_add_assign w pos))"
  shows "fst (BinaryDilation_at inp (Raster_patch inp w) pos) = MaximumFilter_at inp w pos"
proof -
  from vs have th: "those (map inp (Window_positions (Window_add_assign w pos))) = Some vs"
    by (simp add: Patch_values_def Patch_shift_def Raster_patch_def)
  from those_map_member [OF th c] obtain cv where cv: "inp pos = Some cv" "cv \<in> set vs"
    by blast
  then have ne: "vs \<noteq> []" by auto
  have mx: "MaximumFilter_at inp w pos = Some (BinaryDilation vs)"
    using vs ne by (simp add: MaximumFilter_at_def BinaryDilation_is_MaximumFilter)
  show ?thesis
  proof (cases cv)
    case False
    with cv vs show ?thesis by (simp add: BinaryDilation_at_def mx Let_def)
  next
    case True
    with cv have "BinaryDilation vs" by (auto simp: BinaryDilation_def list_ex_iff)
    with True cv show ?thesis by (simp add: BinaryDilation_at_def mx)
  qed
qed

lemma Box_window_holds_position:
  assumes len: "length (m_front b) = length pos" "length (m_back b) = length pos"
    and origin: "Box_contains b (map (\<lambda>x. 0) pos)"
  shows "pos \<in> set (Window_positions (Window_add_assign (BoxWindow b) pos))"
proof -
  from origin len have "list_all2 (\<le>) (pos_add (m_front b) pos) pos"
    and "list_all2 (\<le>) pos (pos_add (m_back b) pos)"
    by (simp_all add: Box_contains_def pos_add_def list_all2_conv_all_nth)
  then have "Box_contains (Box_add_assign b pos) pos"
    by (simp add: Box_contains_def Box_add_assign_def)
  moreover have "length (m_front (Box_add_assign b pos)) = length (m_back (Box_add_assign b pos))"
    using len by (simp add: Box_add_assign_def)
  ultimately show ?thesis by (simp add: set_Box_positions)
qed

text \<open>
  C1. The claim that erosion (dilation) with the early return gives, at every position
  and for every window, the value of the minimum (maximum) filter with the same window.
  The one-argument operators do agree with the minimum and maximum on Boolean neighbours
  (\<open>BinaryErosion_is_MinimumFilter\<close>, \<open>BinaryDilation_is_MaximumFilter\<close>), and so do
  the three-argument ones when the window shifted to the position holds the position
  itself (\<open>BinaryErosion_at_center_in_window\<close>, \<open>BinaryDilation_at_center_in_window\<close>),
  as a box that holds its origin does (\<open>Box_window_holds_position\<close>).
  For a window that does not hold its origin the early return gives another value: on
  the one-dimensional input with \<open>in[0] = false\<close>, \<open>in[1] = true\<close> and the window
  \<open>{1}\<close>, erosion at position 0 returns false where the minimum filter returns true;
  with the two values swapped, dilation returns true where the maximum filter returns false.
\<close>

theorem Binary_shortcut_off_centre:
  "fst (BinaryErosion_at [[0] \<mapsto> False, [1] \<mapsto> True]
          (Raster_patch [[0] \<mapsto> False, [1] \<mapsto> True] (BoxWindow \<lparr>m_front = [1], m_back = [1]\<rparr>)) [0])
     = Some False \<and>
   MinimumFilter_at [[0] \<mapsto> False, [1] \<mapsto> True] (BoxWindow \<lparr>m_front = [1], m_back = [1]\<rparr>) [0]
     = Some True \<and>
   fst (BinaryDilation_at [[0] \<mapsto> True, [1] \<mapsto> False]
          (Raster_patch [[0] \<mapsto> True, [1] \<mapsto> False] (BoxWindow \<lparr>m_front = [1], m_back = [1]\<rparr>)) [0])
     = Some True \<and>
   MaximumFilter_at [[0] \<mapsto> True, [1] \<mapsto> False] (BoxWindow \<lparr>m_front = [1], m_back = [1]\<rparr>) [0]
     = Some False"
  by (simp add: BinaryErosion_at_def BinaryDilation_at_def MinimumFilter_at_def
      MaximumFilter_at_def Patch_values_def Patch_shift_def Raster_patch_def
      Box_add_assign_def pos_add_def Box_positions_def)

section \<open>Correlation and convolution\<close>

lemma inner_product_sum:
  fixes xs ys :: "real list"
  shows "length ys = length xs \<Longrightarrow>
    inner_product xs ys init = Some (init + (\<Sum>i<length xs. xs ! i * ys ! i))"
proof (induction xs ys arbitrary: init rule: list_induct2')
  case (4 x xs y ys)
  then show ?case by (simp add: sum.lessThan_Suc_shift add.assoc del: sum.lessThan_Suc)
qed simp_all

text \<open>
  C6. For real weights \<open>w\<close> and neighbour values \<open>v\<close> of the same length, the
  convolution kernel built from \<open>w\<close> gives on \<open>v\<close> what the correlation kernel built from
  \<open>reverse(w)\<close> gives: convolution is the inner product of \<open>w\<close> reversed with \<open>v\<close>,
  correlation the inner product of \<open>w\<close> with \<open>v\<close>.
\<close>

theorem Convolution_Correlation_duality:
  fixes w v :: "real list"
  assumes "length v = length w"
  shows "Convolution w v = Correlation (rev w) v \<and>
         Convolution w v = Some (\<Sum>i<length w. w ! (length w - 1 - i) * v ! i) \<and>
         Correlation w v = Some (\<Sum>i<length w. w ! i * v ! i)"
proof -
  have "Convolution w v = Some (\<Sum>i<length w. rev w ! i * v ! i)"
    using assms by (simp add: Convolution_def inner_product_sum)
  also have "(\<Sum>i<length w. rev w ! i * v ! i) = (\<Sum>i<length w. w ! (length w - 1 - i) * v ! i)"
    by (rule sum.cong) (simp_all add: rev_nth)
  finally have conv: "Convolution w v = Some (\<Sum>i<length w. w ! (length w - 1 - i) * v ! i)" .
  have corr: "Correlation w v = Some (\<Sum>i<length w. w ! i * v ! i)"
    using assms by (simp add: Correlation_def inner_product_sum)
  have "Convolution w v = Correlation (rev w) v"
    by (simp add: Convolution_def Correlation_def)
  with conv corr show ?thesis by simp
qed

theorem Convolution_Correlation_duality_witness:
  "Convolution [1, 2, 3] [4, 5, 6 :: real] = Correlation (rev [1, 2, 3]) [4, 5, 6] \<and>
   Convolution [1, 2, 3] [4, 5, 6 :: real] = Some 28 \<and>
   Correlation [1, 2, 3] [4, 5, 6 :: real] = Some 32"
  using Convolution_Correlation_duality [of "[4, 5, 6]" "[1, 2, 3]"]
  by (simp add: Convolution_def Correlation_def)

section \<open>Median filter\<close>

lemma nth_element_post_length: "nth_element_post v n v' \<Longrightarrow> length v' = length v"
  by (auto simp: nth_element_post_def dest: mset_eq_length)

lemma nth_element_post_sort:
  assumes post: "nth_element_post v n v'" and n: "n < length v"
  shows "sort v = sort (take n v') @ v' ! n # sort (drop (Suc n) v')"
proof -
  let ?s = "sort (take n v') @ v' ! n # sort (drop (Suc n) v')"
  from post n have len: "n < length v'" by (simp add: nth_element_post_length)
  from post n have lo: "\<forall>x\<in>set (take n v'). x \<le> v' ! n"
    and hi: "\<forall>x\<in>set (drop (Suc n) v'). v' ! n \<le> x"
    by (simp_all add: nth_element_post_def list_all_iff)
  have "mset ?s = mset (take n v' @ v' ! n # drop (Suc n) v')" by simp
  also have "take n v' @ v' ! n # drop (Suc n) v' = v'"
    using len by (rule id_take_nth_drop [symmetric])
  finally have "mset ?s = mset v'" .
  then have ms: "mset ?s = mset v" using post by (simp add: nth_element_post_def)
  have "sorted ?s"
    using lo hi by (auto simp: sorted_append intro: order_trans)
  with ms show ?thesis by (rule properties_for_sort)
qed

lemma nth_element_post_nth:
  assumes "nth_element_post v n v'" and "n < length v"
  shows "v' ! n = sort v ! n"
  using assms
  by (simp add: nth_element_post_sort [OF assms] nth_append nth_element_post_length)

lemma nth_element_post_take:
  assumes "nth_element_post v n v'" and "n < length v"
  shows "mset (take n v') = mset (take n (sort v))"
proof -
  from assms have "n \<le> length v'" by (simp add: nth_element_post_length)
  then show ?thesis by (simp add: nth_element_post_sort [OF assms])
qed

lemma sort_cong_mset: "mset xs = mset ys \<Longrightarrow> sort xs = sort ys"
  by (rule properties_for_sort) simp_all

lemma sort_select_post: "nth_element_post v n (sort_select v n)"
proof (cases "n < length v")
  case False
  then show ?thesis by (simp add: nth_element_post_def sort_select_def)
next
  case True
  have lo: "x \<le> sort v ! n" if "x \<in> set (take n (sort v))" for x
  proof -
    from that obtain i where "i < n" "x = sort v ! i"
      using True by (auto simp: in_set_conv_nth)
    with True show ?thesis by (simp add: sorted_nth_mono)
  qed
  have hi: "sort v ! n \<le> x" if "x \<in> set (drop (Suc n) (sort v))" for x
  proof -
    from that obtain i where "i < length v - Suc n" "x = sort v ! (Suc n + i)"
      by (auto simp: in_set_conv_nth)
    then show ?thesis by (simp add: sorted_nth_mono)
  qed
  from True lo hi show ?thesis
    by (simp add: nth_element_post_def sort_select_def list_all_iff)
qed

lemma sort_select_spec: "nth_element_spec sort_select"
  by (simp add: nth_element_spec_def sort_select_post)

lemma MedianFilter_odd:
  assumes sel: "nth_element_spec sel" and odd: "odd (length v)"
  shows "MedianFilter sel v = Some (sort v ! (length v div 2))"
proof -
  let ?n = "length v div 2"
  from odd have n: "?n < length v" by (cases "length v") auto
  from sel have "nth_element_post v ?n (sel v ?n)"
    by (simp add: nth_element_spec_def)
  then have "sel v ?n ! ?n = sort v ! ?n" using n by (rule nth_element_post_nth)
  moreover from odd have "length v mod 2 = 1" by (simp add: odd_iff_mod_2_eq_one)
  ultimately show ?thesis by (simp add: MedianFilter_def Let_def)
qed

lemma MedianFilter_even:
  assumes sel: "nth_element_spec sel" and even: "even (length v)" and four: "4 \<le> length v"
  shows "\<exists>x\<in>set (take (length v div 2 + 1) (sort v)).
           MedianFilter sel v = Some ((x + sort v ! (length v div 2 + 1)) * 0.5)"
proof -
  let ?n = "length v div 2"
  let ?v1 = "sel v ?n"
  let ?v2 = "sel ?v1 (?n + 1)"
  from sel have p1: "nth_element_post v ?n ?v1" by (simp add: nth_element_spec_def)
  then have l1: "length ?v1 = length v" by (rule nth_element_post_length)
  from p1 have "mset ?v1 = mset v" by (simp add: nth_element_post_def)
  then have s1: "sort ?v1 = sort v" by (rule sort_cong_mset)
  from four have n1: "?n + 1 < length ?v1" unfolding l1 by linarith
  from sel n1 have p2: "nth_element_post ?v1 (?n + 1) ?v2" by (simp add: nth_element_spec_def)
  then have l2: "length ?v2 = length v" using l1 by (simp add: nth_element_post_length)
  from p2 n1 have top: "?v2 ! (?n + 1) = sort v ! (?n + 1)"
    unfolding s1 [symmetric] by (rule nth_element_post_nth)
  from p2 n1 have "mset (take (?n + 1) ?v2) = mset (take (?n + 1) (sort v))"
    unfolding s1 [symmetric] by (rule nth_element_post_take)
  then have "set (take (?n + 1) ?v2) = set (take (?n + 1) (sort v))" by (rule mset_eq_setD)
  moreover have "?v2 ! ?n \<in> set (take (?n + 1) ?v2)"
    using n1 l1 l2 by (auto simp: in_set_conv_nth intro!: exI [of _ "?n"])
  ultimately have low: "?v2 ! ?n \<in> set (take (?n + 1) (sort v))" by simp
  from even have "length v mod 2 \<noteq> 1" by presburger
  with n1 l1 top have "MedianFilter sel v = Some ((?v2 ! ?n + sort v ! (?n + 1)) * 0.5)"
    by (simp add: MedianFilter_def Let_def)
  with low show ?thesis by blast
qed

text \<open>
  C7. The claim that the median filter returns the middle order statistic of an odd
  number of neighbours and the average of the two middle order statistics of an even
  number. The odd case holds for every selection that meets the contract of
  \<open>std::nth_element\<close> (\<open>MedianFilter_odd\<close>). For an even count the code selects at
  \<open>size / 2\<close> and \<open>size / 2 + 1\<close>, one place too high (\<open>MedianFilter_even\<close>): on the
  neighbours 0, 0, 0, 10 every such selection makes it return \<open>(0 + 10) * .5 = 5\<close>, while
  the two middle order statistics are 0 and 0, of average 0; on two neighbours it reads
  past the end of its buffer.
\<close>

theorem MedianFilter_even_count:
  assumes "nth_element_spec sel"
  shows "MedianFilter sel [0, 0, 0, 10] = Some 5 \<and>
         (sort [0, 0, 0, 10 :: real] ! 1 + sort [0, 0, 0, 10 :: real] ! 2) * 0.5 = 0 \<and>
         MedianFilter sel [1, 3] = None"
proof -
  have srt: "sort [0, 0, 0, 10 :: real] = [0, 0, 0, 10]" by simp
  from MedianFilter_even [OF assms, of "[0, 0, 0, 10]"]
  obtain x where "x \<in> set (take 3 (sort [0, 0, 0, 10 :: real]))"
    and "MedianFilter sel [0, 0, 0, 10] = Some ((x + sort [0, 0, 0, 10 :: real] ! 3) * 0.5)"
    by auto
  then have four: "MedianFilter sel [0, 0, 0, 10] = Some 5"
    unfolding srt by (auto simp: numeral_3_eq_3)
  have two: "MedianFilter sel [1, 3] = None"
    by (simp add: MedianFilter_def Let_def)
  from four two show ?thesis unfolding srt by simp
qed

theorem MedianFilter_even_count_witness:
  "nth_element_spec (sort_select :: real list \<Rightarrow> nat \<Rightarrow> real list) \<and>
   MedianFilter sort_select [0, 0, 0, 10] = Some 5 \<and>
   MedianFilter sort_select [1, 3] = None"
  using MedianFilter_even_count [OF sort_select_spec] sort_select_spec by simp


section \<open>Size of a grid\<close>

lemma Grid_test_box:
  "Grid \<lparr>m_front = [3, 4], m_back = [9, 8]\<rparr> [3, 3] =
     Some \<lparr>grid_box = \<lparr>m_front = [3, 4], m_back = [9, 7]\<rparr>, m_step = [3, 3]\<rparr>"
  by (simp add: Grid_def Box_length_def signed_modulo_int_def upt_rec)

lemma Grid_test_size:
  "Grid_size \<lparr>grid_box = \<lparr>m_front = [3, 4], m_back = [9, 7]\<rparr>, m_step = [3, 3]\<rparr> = Some 2"
  by (simp add: Grid_size_def Grid_dimension_def Grid_length_def Box_length_def
      signed_divide_int_def upt_rec)

lemma Grid_test_count:
  "ceil_count \<lparr>m_front = [3, 4], m_back = [9, 8]\<rparr> [3, 3] = 6"
  by (simp add: ceil_count_def Box_length_def upt_rec)

lemma Grid_test_positions:
  "Grid_positions \<lparr>grid_box = \<lparr>m_front = [3, 4], m_back = [9, 7]\<rparr>, m_step = [3, 3]\<rparr> =
     [[3, 4], [3, 7], [6, 4], [6, 7], [9, 4], [9, 7]]"
  by (simp add: Grid_positions_def Box_positions_def on_step_def pos_sub_def upto_rec1)

lemma ceiling_div_pos:
  fixes L s :: int
  assumes "0 < s"
  shows "\<lceil>real_of_int L / real_of_int s\<rceil> = (L - 1) div s + 1"
proof -
  let ?k = "(L - 1) div s" and ?r = "(L - 1) mod s"
  have L: "L = s * ?k + ?r + 1" by simp
  have r: "0 \<le> ?r" "?r < s" using assms by simp_all
  have "- L = s * (- ?k - 1) + (s - ?r - 1)"
    using L by (simp add: algebra_simps)
  moreover have "0 \<le> s - ?r - 1" "s - ?r - 1 < s" using r by simp_all
  ultimately have "(- L) div s = - ?k - 1" by (rule int_div_pos_eq)
  then show ?thesis by (simp add: ceiling_divide_eq_div)
qed

lemma trimmed_length:
  fixes L s :: int
  assumes "0 < L" and "0 < s"
  shows "L - (L - 1) smod s = s * ((L - 1) div s) + 1"
proof -
  from assms have "(L - 1) smod s = (L - 1) mod s"
    by (simp add: signed_modulo_int_def sgn_if)
  moreover have "L - 1 = s * ((L - 1) div s) + (L - 1) mod s" by simp
  ultimately show ?thesis by linarith
qed

lemma trimmed_length_sdiv:
  fixes L s :: int
  assumes "0 < L" and "1 < s"
  shows "(L - (L - 1) smod s) sdiv s = \<lceil>real_of_int L / real_of_int s\<rceil> - 1"
proof -
  let ?k = "(L - 1) div s"
  from assms have k: "0 \<le> ?k" by (simp add: pos_imp_zdiv_nonneg_iff)
  from assms have t: "L - (L - 1) smod s = s * ?k + 1" by (simp add: trimmed_length)
  from assms k have pos: "0 < s * ?k + 1" by (simp add: add_nonneg_pos)
  have "(s * ?k + 1) div s = ?k"
    using assms by (intro int_div_pos_eq [of _ _ _ 1]) simp_all
  with pos assms have "(s * ?k + 1) sdiv s = ?k"
    by (simp add: signed_divide_int_def sgn_if)
  with t assms show ?thesis by (simp add: ceiling_div_pos)
qed

lemma Grid_length_one_short:
  assumes g: "Grid b step = Some g" and i: "i < length step"
    and L: "0 < Box_length b i" and s: "1 < step ! i"
  shows "Grid_length g i = \<lceil>real_of_int (Box_length b i) / real_of_int (step ! i)\<rceil> - 1"
proof -
  from g have len: "length (m_front b) = length (m_back b)" "length step = length (m_back b)"
    and gb: "grid_box g = \<lparr>m_front = m_front b,
        m_back = map (\<lambda>i. m_back b ! i - (Box_length b i - 1) smod step ! i)
                   [0..<length (m_back b)]\<rparr>"
    and gs: "m_step g = step"
    by (auto simp: Grid_def split: if_splits)
  from i len have "Box_length (grid_box g) i = Box_length b i - (Box_length b i - 1) smod step ! i"
    by (simp add: gb Box_length_def)
  then show ?thesis
    using L s by (simp add: Grid_length_def gs trimmed_length_sdiv)
qed

lemma Grid_back_on_step:
  assumes g: "Grid b step = Some g" and i: "i < length step"
    and L: "0 < Box_length b i" and s: "0 < step ! i"
  shows "(m_back (grid_box g) ! i - m_front (grid_box g) ! i) mod step ! i = 0"
    and "m_back (grid_box g) ! i \<le> m_back b ! i"
    and "m_back b ! i - m_back (grid_box g) ! i < step ! i"
proof -
  from g have len: "length (m_front b) = length (m_back b)" "length step = length (m_back b)"
    and gb: "grid_box g = \<lparr>m_front = m_front b,
        m_back = map (\<lambda>i. m_back b ! i - (Box_length b i - 1) smod step ! i)
                   [0..<length (m_back b)]\<rparr>"
    by (auto simp: Grid_def split: if_splits)
  from L s have sm: "(Box_length b i - 1) smod step ! i = (Box_length b i - 1) mod step ! i"
    by (simp add: signed_modulo_int_def sgn_if)
  have bk: "m_back (grid_box g) ! i = m_back b ! i - (Box_length b i - 1) mod step ! i"
    using i len by (simp add: gb sm)
  have fr: "m_front (grid_box g) = m_front b" by (simp add: gb)
  have "m_back b ! i - (Box_length b i - 1) mod step ! i - m_front b ! i =
      (m_back b ! i - m_front b ! i) - (m_back b ! i - m_front b ! i) mod step ! i"
    by (simp add: Box_length_def)
  also have "\<dots> = step ! i * ((m_back b ! i - m_front b ! i) div step ! i)"
    by (simp add: minus_mod_eq_mult_div)
  finally show "(m_back (grid_box g) ! i - m_front (grid_box g) ! i) mod step ! i = 0"
    unfolding bk fr by simp
  show "m_back (grid_box g) ! i \<le> m_back b ! i"
    unfolding bk using s by simp
  show "m_back b ! i - m_back (grid_box g) ! i < step ! i"
    unfolding bk using s by simp
qed

lemma on_step_below:
  fixes d m s :: int
  assumes "0 < s" and "d mod s = 0" and "d \<le> m"
  shows "d \<le> m - m mod s"
proof -
  from assms(2) have d: "d = s * (d div s)" by auto
  from assms(1,3) have "d div s \<le> m div s" by (simp add: zdiv_mono1)
  with assms(1) have "s * (d div s) \<le> s * (m div s)" by simp
  also have "\<dots> = m - m mod s" by (simp add: minus_mod_eq_mult_div)
  finally show ?thesis using d by simp
qed

lemma Grid_positions_set:
  assumes g: "Grid b step = Some g"
    and pos: "list_all (\<lambda>s. 0 < s) step"
    and ne: "list_all2 (\<le>) (m_front b) (m_back b)"
  shows "set (Grid_positions g) = {p. Box_contains b p \<and> on_step (m_front b) step p}"
proof -
  let ?n = "length (m_back b)"
  let ?bk = "map (\<lambda>i. m_back b ! i - (Box_length b i - 1) smod step ! i) [0..<?n]"
  from g have len: "length (m_front b) = ?n" "length step = ?n"
    and gb: "grid_box g = \<lparr>m_front = m_front b, m_back = ?bk\<rparr>"
    and gs: "m_step g = step"
    by (auto simp: Grid_def split: if_splits)
  have s: "0 < step ! i" if "i < ?n" for i
    using pos that len by (simp add: list_all_length)
  have L: "m_front b ! i \<le> m_back b ! i" if "i < ?n" for i
    using ne that by (simp add: list_all2_conv_all_nth)
  have bk: "?bk ! i = m_back b ! i - (m_back b ! i - m_front b ! i) mod step ! i" if "i < ?n" for i
    using that s [OF that] L [OF that]
    by (simp add: Box_length_def signed_modulo_int_def sgn_if)
  have eq: "Box_contains (grid_box g) p \<longleftrightarrow> Box_contains b p"
    if st: "on_step (m_front b) step p" for p
  proof (cases "length p = ?n")
    case False
      then show ?thesis using len by (auto simp: Box_contains_def gb dest: list_all2_lengthD)
    next
      case True
      have md: "(p ! i - m_front b ! i) mod step ! i = 0" if "i < ?n" for i
        using st that True len by (simp add: on_step_def pos_sub_def list_all2_conv_all_nth)
      have "p ! i \<le> ?bk ! i \<longleftrightarrow> p ! i \<le> m_back b ! i" if i: "i < ?n" for i
      proof
        assume "p ! i \<le> ?bk ! i"
        then show "p ! i \<le> m_back b ! i"
          unfolding bk [OF i] using s [OF i] pos_mod_sign [of "step ! i" "m_back b ! i - m_front b ! i"]
          by linarith
      next
        assume "p ! i \<le> m_back b ! i"
        then have "p ! i - m_front b ! i \<le> m_back b ! i - m_front b ! i" by simp
        with s [OF i] md [OF i]
        have "p ! i - m_front b ! i \<le>
            (m_back b ! i - m_front b ! i) - (m_back b ! i - m_front b ! i) mod step ! i"
          by (rule on_step_below)
        then show "p ! i \<le> ?bk ! i" unfolding bk [OF i] by linarith
      qed
      then have "list_all2 (\<le>) p ?bk \<longleftrightarrow> list_all2 (\<le>) p (m_back b)"
        using True by (simp add: list_all2_conv_all_nth)
      then show ?thesis by (simp add: Box_contains_def gb)
    qed
  have "set (Grid_positions g) =
      {p. Box_contains (grid_box g) p \<and> on_step (m_front b) step p}"
    using len by (auto simp: Grid_positions_def gb gs set_Box_positions)
  also have "\<dots> = {p. Box_contains b p \<and> on_step (m_front b) step p}"
    using eq by blast
  finally show ?thesis .
qed

text \<open>
  C2. The claim that the grid built from a box with positive lengths and a positive step
  holds exactly the positions of the box congruent to its front modulo the step, and
  that \<open>size()\<close> is the product over the axes of \<open>ceil(length_i / s_i)\<close>. The constructor
  does trim the back onto a step boundary below the given back (\<open>Grid_back_on_step\<close>),
  and the trimmed box holds the same positions on the step as the given box
  (\<open>Grid_positions_set\<close>). But \<open>length(i)\<close> divides the trimmed length by the step and
  rounds down, which is one less than \<open>ceil(length_i / s_i)\<close> on every axis whose step is
  above 1 (\<open>Grid_length_one_short\<close>). On the grid of the repository's tiling test, the
  box from (3, 4) to (9, 8) with step (3, 3), the back becomes (9, 7), the grid has the 6
  positions the claim counts, and \<open>size()\<close> returns 2.
\<close>

theorem Grid_size_test_grid:
  "Grid \<lparr>m_front = [3, 4], m_back = [9, 8]\<rparr> [3, 3] =
     Some \<lparr>grid_box = \<lparr>m_front = [3, 4], m_back = [9, 7]\<rparr>, m_step = [3, 3]\<rparr> \<and>
   Grid_size \<lparr>grid_box = \<lparr>m_front = [3, 4], m_back = [9, 7]\<rparr>, m_step = [3, 3]\<rparr> = Some 2 \<and>
   ceil_count \<lparr>m_front = [3, 4], m_back = [9, 8]\<rparr> [3, 3] = 6 \<and>
   Grid_positions \<lparr>grid_box = \<lparr>m_front = [3, 4], m_back = [9, 7]\<rparr>, m_step = [3, 3]\<rparr> =
     [[3, 4], [3, 7], [6, 4], [6, 7], [9, 4], [9, 7]]"
  using Grid_test_box Grid_test_size Grid_test_count Grid_test_positions by simp

section \<open>Nearest-neighbour lookup at a real position\<close>

lemma to_Index_half_above:
  assumes "- 1 / 2 < e"
  shows "to_Index (e + 0.5) = round_half_away e"
proof (cases "0 \<le> e")
  case True
  then show ?thesis by (simp add: to_Index_def round_half_away_def)
next
  case False
  with assms have "\<lfloor>e + 1 / 2\<rfloor> = 0" "\<lceil>e - 1 / 2\<rceil> = 0"
    by (simp_all add: floor_eq_iff ceiling_eq_iff)
  with False assms show ?thesis by (simp add: to_Index_def round_half_away_def)
qed

lemma to_Index_half_below:
  assumes "e \<le> - 1 / 2"
  shows "to_Index (e + 0.5) = round_half_away e + 1"
proof -
  have "e + 1 / 2 = (e - 1 / 2) + 1" by simp
  then have "\<lceil>e + 1 / 2\<rceil> = \<lceil>(e - 1 / 2) + 1\<rceil>" by (rule arg_cong)
  also have "\<dots> = \<lceil>e - 1 / 2\<rceil> + 1" by (rule ceiling_add_one)
  finally have c: "\<lceil>e + 1 / 2\<rceil> = \<lceil>e - 1 / 2\<rceil> + 1" .
  show ?thesis
  proof (cases "e = - 1 / 2")
    case True
    have "\<lceil>- 1 :: real\<rceil> = - 1" by (simp add: ceiling_eq_iff)
    with True show ?thesis by (simp add: to_Index_def round_half_away_def)
  next
    case False
    with assms have "e + 1 / 2 < 0" "e < 0" by simp_all
    with c show ?thesis by (simp add: to_Index_def round_half_away_def)
  qed
qed

text \<open>
  C4. The claim that the nearest policy at a real position reads the raster at the
  position whose coordinates are rounded to the nearest integer, ties away from zero.
  The code stores \<open>e + .5\<close> into an integer coordinate, which truncates towards zero:
  that is the stated rounding for \<open>e > -1/2\<close> (\<open>to_Index_half_above\<close>) and one above it
  for every \<open>e \<le> -1/2\<close> (\<open>to_Index_half_below\<close>). On an input that answers
  \<open>in[-2] = 2\<close>, \<open>in[-1] = 1\<close>, \<open>in[0] = 0\<close>, the positions \<open>-3/2\<close>, \<open>-1\<close> and \<open>-3/4\<close>
  are read at \<open>-1\<close>, \<open>0\<close> and \<open>0\<close>, where the stated rounding reads \<open>-2\<close>, \<open>-1\<close> and
  \<open>-1\<close>.
\<close>

theorem Nearest_at_negative:
  "Nearest_at [[- 2] \<mapsto> 2, [- 1] \<mapsto> 1, [0] \<mapsto> 0 :: int] [- 3 / 2] = Some 1 \<and>
   [[- 2] \<mapsto> 2, [- 1] \<mapsto> 1, [0] \<mapsto> 0 :: int] (map round_half_away [- 3 / 2]) = Some 2 \<and>
   Nearest_at [[- 2] \<mapsto> 2, [- 1] \<mapsto> 1, [0] \<mapsto> 0 :: int] [- 1] = Some 0 \<and>
   [[- 2] \<mapsto> 2, [- 1] \<mapsto> 1, [0] \<mapsto> 0 :: int] (map round_half_away [- 1]) = Some 1 \<and>
   Nearest_at [[- 2] \<mapsto> 2, [- 1] \<mapsto> 1, [0] \<mapsto> 0 :: int] [- 3 / 4] = Some 0 \<and>
   [[- 2] \<mapsto> 2, [- 1] \<mapsto> 1, [0] \<mapsto> 0 :: int] (map round_half_away [- 3 / 4]) = Some 1"
proof -
  have r: "round_half_away (- (3 / 2)) = - 2" "round_half_away (- 1) = - 1"
    "round_half_away (- (3 / 4)) = - 1"
    by (simp_all add: round_half_away_def ceiling_eq_iff)
  have t: "to_Index (- 1) = - 1" "to_Index (- (1 / 2)) = 0" "to_Index (- (1 / 4)) = 0"
    by (simp_all add: to_Index_def ceiling_eq_iff)
  show ?thesis by (simp add: Nearest_at_def r t)
qed

section \<open>Linear interpolation at an integer position\<close>



lemma DBL_MAX_pos: "0 < DBL_MAX"
  by (simp add: DBL_MAX_def)





lemma dneg_finite [simp]: "is_finite (dneg a) = is_finite a"
  by (cases a) (simp_all add: dneg_def)

lemma dneg_val [simp]: "val (dneg a) = - val a"
  by (cases a) (simp_all add: dneg_def)

lemma dneg_NaN [simp]: "dneg a = NaN \<longleftrightarrow> a = NaN"
  by (cases a) (simp_all add: dneg_def)

lemma dsub_finite_operands:
  assumes "is_finite (dsub rnd a b)"
  shows "is_finite a \<and> is_finite b"
proof (rule ccontr)
  assume "\<not> (is_finite a \<and> is_finite b)"
  then have "\<not> is_finite (dsub rnd a b)"
    by (cases a; cases b) (simp_all add: dsub_def dadd_def dneg_def)
  with assms show False by simp
qed

















lemma Linear_at_negative_zero:
  "Linear_at no_rounding [[0] \<mapsto> NZero, [1] \<mapsto> Fin 1] [Fin 0] [] = Some (Fin 0)"
proof -
  have "1 \<le> DBL_MAX" by (simp add: DBL_MAX_def)
  then show ?thesis
    by (simp add: lerp_def dsub_def dadd_def dmul_def dneg_def of_Index_def of_exact_def
        no_rounding_def)
qed






section \<open>Inverse of an affinity\<close>

lemma dot_add_right:
  "length u = length v \<Longrightarrow> dot r (vec_add u v) = dot r u + dot r v"
proof (induction u v arbitrary: r rule: list_induct2)
  case Nil
  then show ?case by (simp add: dot_def vec_add_def)
next
  case (Cons x xs y ys)
  then show ?case by (cases r) (simp_all add: dot_def vec_add_def algebra_simps)
qed

lemma dot_neg_left: "dot (map uminus r) v = - dot r v"
proof (induction r arbitrary: v)
  case Nil
  then show ?case by (simp add: dot_def)
next
  case (Cons x xs)
  then show ?case by (cases v) (simp_all add: dot_def)
qed

lemma mat_vec_add:
  "length u = length v \<Longrightarrow> mat_vec a (vec_add u v) = vec_add (mat_vec a u) (mat_vec a v)"
proof -
  assume len: "length u = length v"
  have "map (\<lambda>row. dot row (vec_add u v)) a =
      map2 (+) (map (\<lambda>row. dot row u) a) (map (\<lambda>row. dot row v) a)"
    by (induction a) (simp_all add: dot_add_right [OF len])
  then show ?thesis by (simp add: mat_vec_def vec_add_def [of "map f a" for f])
qed

lemma mat_vec_neg: "mat_vec (mat_neg a) v = map uminus (mat_vec a v)"
  by (simp add: mat_vec_def mat_neg_def dot_neg_left)

lemma length_mat_vec [simp]: "length (mat_vec a v) = length a"
  by (simp add: mat_vec_def)

lemma vec_sub_add_cancel:
  "length u = length c \<Longrightarrow> vec_sub (vec_add u c) c = u"
  by (induction u c rule: list_induct2) (simp_all add: vec_sub_def vec_add_def)

lemma vec_add_assoc_swap:
  assumes "length b = n" "length c = n" "length w = n"
  shows "vec_sub (vec_add (vec_add b c) w) c = vec_add b w"
  using assms by (auto simp: vec_sub_def vec_add_def list_eq_iff_nth_eq)

lemma vec_round_trip:
  assumes "length t = n" "length c = n" "length x = n"
  shows "vec_add (vec_add (map uminus t) c) (vec_add t (vec_sub x c)) = x"
  using assms by (auto simp: vec_sub_def vec_add_def list_eq_iff_nth_eq)

text \<open>
  C3. For every affinity whose linear map \<open>a\<close> is square of dimension \<open>n\<close> and inverted
  by the inversion in use (so \<open>a\<close> is non-singular), with a translation and a center of
  dimension \<open>n\<close>, and every point \<open>x\<close> of dimension \<open>n\<close>: applying the affinity and then
  its inverse gives \<open>x\<close> back; \<open>inverse()\<close> replaces the map by its inverse and the
  translation \<open>b\<close> by minus the inverse of \<open>a\<close> applied to \<open>b\<close>, and keeps the center. In real arithmetic the round
  trip is exact.
\<close>

theorem Affinity_round_trip:
  assumes sq: "square n (m_map A)" and b: "length (m_translation A) = n"
    and c: "length (m_center A) = n" and x: "length x = n"
    and inv: "inverts n minv (m_map A)"
  shows "Affinity_apply (inverse_of minv A) (Affinity_apply A x) = x \<and>
         m_map (inverse_of minv A) = minv (m_map A) \<and>
         m_translation (inverse_of minv A) = map uminus (mat_vec (minv (m_map A)) (m_translation A)) \<and>
         m_center (inverse_of minv A) = m_center A"
proof -
  let ?a = "m_map A" and ?b = "m_translation A" and ?c = "m_center A"
  let ?ai = "minv (m_map A)"
  let ?w = "mat_vec ?a (vec_sub x ?c)"
  from sq have la: "length ?a = n" by (simp add: square_def)
  from inv have lai: "length ?ai = n"
    and undo: "\<And>v. length v = n \<Longrightarrow> mat_vec ?ai (mat_vec ?a v) = v"
    by (simp_all add: inverts_def square_def)
  have mp: "m_map (inverse_of minv A) = ?ai"
    and tr: "m_translation (inverse_of minv A) = map uminus (mat_vec ?ai ?b)"
    and ce: "m_center (inverse_of minv A) = ?c"
    by (simp_all add: inverse_of_def Affinity_inverse_def Let_def mat_vec_neg)
  have lw: "length ?w = n" using la by simp
  have lxc: "length (vec_sub x ?c) = n" using x c by (simp add: vec_sub_def)
  have y: "vec_sub (Affinity_apply A x) ?c = vec_add ?b ?w"
    unfolding Affinity_apply_def using b c lw by (rule vec_add_assoc_swap)
  have "mat_vec ?ai (vec_add ?b ?w) = vec_add (mat_vec ?ai ?b) (mat_vec ?ai ?w)"
    using b lw by (simp add: mat_vec_add)
  also have "mat_vec ?ai ?w = vec_sub x ?c" using lxc by (rule undo)
  finally have z: "mat_vec ?ai (vec_sub (Affinity_apply A x) ?c) =
      vec_add (mat_vec ?ai ?b) (vec_sub x ?c)"
    unfolding y .
  have lt: "length (mat_vec ?ai ?b) = n" using lai by simp
  have "Affinity_apply (inverse_of minv A) (Affinity_apply A x) =
      vec_add (vec_add (map uminus (mat_vec ?ai ?b)) ?c) (vec_add (mat_vec ?ai ?b) (vec_sub x ?c))"
    by (simp add: Affinity_apply_def [of "inverse_of minv A"] mp tr ce z)
  also have "\<dots> = x" using lt c x by (rule vec_round_trip)
  finally show ?thesis using mp tr ce by simp
qed

lemma length_two: "length v = 2 \<Longrightarrow> \<exists>p q. v = [p, q]"
  by (cases v; cases "tl v") auto

lemma inverse2_inverts:
  assumes "a * d - b * c \<noteq> 0"
  shows "inverts 2 inverse2 [[a, b], [c, d]]"
proof -
  have "mat_vec (inverse2 [[a, b], [c, d]]) (mat_vec [[a, b], [c, d]] v) = v" if "length v = 2" for v
  proof -
    from that obtain p q where v: "v = [p, q]" using length_two by blast
    let ?D = "a * d - b * c"
    have "d / ?D * (a * p + b * q) + - b / ?D * (c * p + d * q) =
        (d * (a * p + b * q) - b * (c * p + d * q)) / ?D"
      by (simp add: diff_divide_distrib)
    also have "\<dots> = p" using assms by (simp add: field_simps)
    finally have p: "d / ?D * (a * p + b * q) + - b / ?D * (c * p + d * q) = p" .
    have "- c / ?D * (a * p + b * q) + a / ?D * (c * p + d * q) =
        (a * (c * p + d * q) - c * (a * p + b * q)) / ?D"
      by (simp add: diff_divide_distrib)
    also have "\<dots> = q" using assms by (simp add: field_simps)
    finally have q: "- c / ?D * (a * p + b * q) + a / ?D * (c * p + d * q) = q" .
    have "mat_vec (inverse2 [[a, b], [c, d]]) (mat_vec [[a, b], [c, d]] [p, q]) =
        [d / ?D * (a * p + b * q) + - b / ?D * (c * p + d * q),
         - c / ?D * (a * p + b * q) + a / ?D * (c * p + d * q)]"
      by (simp add: mat_vec_def dot_def)
    then show ?thesis unfolding v p q .
  qed
  then show ?thesis by (simp add: inverts_def square_def)
qed

theorem Affinity_round_trip_witness:
  "inverts 2 inverse2 [[1, 2], [3, 4]] \<and>
   Affinity_apply \<lparr>m_map = [[1, 2], [3, 4]], m_translation = [1, 2], m_center = [3, 5]\<rparr> [7, 9]
     = [16, 35] \<and>
   Affinity_apply
     (inverse_of inverse2 \<lparr>m_map = [[1, 2], [3, 4]], m_translation = [1, 2], m_center = [3, 5]\<rparr>)
     [16, 35] = [7, 9]"
proof -
  let ?A = "\<lparr>m_map = [[1, 2], [3, 4]], m_translation = [1, 2], m_center = [3, 5]\<rparr>"
  have inv: "inverts 2 inverse2 (m_map ?A)"
    using inverse2_inverts [of 1 4 2 3] by simp
  have sq: "square 2 (m_map ?A)" by (simp add: square_def)
  have y: "Affinity_apply ?A [7, 9] = [16, 35]"
    by (simp add: Affinity_apply_def vec_add_def vec_sub_def mat_vec_def dot_def)
  from Affinity_round_trip [OF sq _ _ _ inv, of "[7, 9]"]
  have "Affinity_apply (inverse_of inverse2 ?A) (Affinity_apply ?A [7, 9]) = [7, 9]"
    by simp
  with y inv show ?thesis by simp
qed

end
